theory Spec2Isabelle
  imports Main "HOL-Library.Word"
begin

unbundle bit_operations_syntax

section \<open>Constants of main.go\<close>

definition cloningWorkers :: nat where
  "cloningWorkers = 5"

definition maxPages :: nat where
  "maxPages = 10"

definition perPage :: nat where
  "perPage = 100"

definition StatusOK :: nat where
  "StatusOK = 200"

section \<open>Errors\<close>

text \<open>
  A Go \<open>error\<close> value is \<open>error option\<close>: \<open>None\<close> is \<open>nil\<close>.
  \<open>Cause\<close> is an error handed back by a library call, \<open>WithMessage\<close> is what
  \<open>errors.Wrap\<close> builds around a non-nil error, \<open>InvalidResponseCode\<close> is the
  \<open>errors.Errorf\<close> of line 242 with its two arguments.
\<close>

datatype error =
    Cause string
  | WithMessage error string
  | InvalidResponseCode nat nat

text \<open>
  \<open>errors.Wrap\<close> of github.com/pkg/errors: "If err is nil, Wrap returns nil."
\<close>

fun Wrap :: "error option \<Rightarrow> string \<Rightarrow> error option" where
  "Wrap None message = None"
| "Wrap (Some e) message = Some (WithMessage e message)"

section \<open>The Lister: fetchReposData\<close>

text \<open>
  Modelled from the spec: the declaration of the struct \<open>MinimalRepository\<close> is not in
  main.go. The code reads its fields \<open>Name\<close> and \<open>CloneUrl\<close>; the spec's
  RepositoryDescriptor has "a unique name, a clone URL, and any other listing-API fields
  carried through opaquely", which is the record's extension part.
\<close>

record MinimalRepository =
  Name :: string
  CloneUrl :: string

text \<open>
  What \<open>client.Do\<close> and the JSON decoder give for one page request: a transport
  error, or a response with its status code and the result of decoding its body.
\<close>

datatype http_result =
    TransportError error
  | Response nat "error + MinimalRepository list"

text \<open>
  The two results of \<open>fetchReposData\<close> (\<open>repos = None\<close> is the nil slice), and the
  page numbers handed to \<open>client.Do\<close>, in order.
\<close>

record fetch_out =
  repos :: "MinimalRepository list option"
  err :: "error option"
  requested :: "nat list"

text \<open>
  The loop of lines 225-258. \<open>ctx_done i\<close> says whether \<open>ctx.Done()\<close> is closed when
  iteration \<open>i\<close> reaches its \<open>select\<close>; \<open>srv i\<close> is the outcome of the request
  for page \<open>i\<close>; \<open>outer_err\<close> is the variable \<open>err\<close> of line 214, which line 228
  wraps (the \<open>err\<close> of lines 236 and 246 is a new variable of the \<open>default\<close> clause).
\<close>

function fetch_loop ::
  "(nat \<Rightarrow> bool) \<Rightarrow> (nat \<Rightarrow> http_result) \<Rightarrow> error option \<Rightarrow> nat \<Rightarrow>
   MinimalRepository list \<Rightarrow> nat list \<Rightarrow> fetch_out" where
  "fetch_loop ctx_done srv outer_err i acc reqs =
     (if i \<le> maxPages then
        (if ctx_done i then
           \<lparr>repos = None, err = Wrap outer_err ''context finished'', requested = reqs\<rparr>
         else
           (case srv i of
              TransportError e \<Rightarrow>
                \<lparr>repos = None, err = Wrap (Some e) ''could not do the request'',
                 requested = reqs @ [i]\<rparr>
            | Response code body \<Rightarrow>
                (if code \<noteq> StatusOK then
                   \<lparr>repos = None, err = Some (InvalidResponseCode i code),
                    requested = reqs @ [i]\<rparr>
                 else
                   (case body of
                      Inl e \<Rightarrow>
                        \<lparr>repos = None, err = Wrap (Some e) ''could not decode response'',
                         requested = reqs @ [i]\<rparr>
                    | Inr respStr \<Rightarrow>
                        (if length respStr < perPage then
                           \<lparr>repos = Some (acc @ respStr), err = None,
                            requested = reqs @ [i]\<rparr>
                         else
                           fetch_loop ctx_done srv outer_err (Suc i) (acc @ respStr)
                             (reqs @ [i]))))))
      else \<lparr>repos = Some acc, err = None, requested = reqs\<rparr>)"
  by pat_completeness auto
termination
  by (relation "measure (\<lambda>(ctx_done, srv, outer_err, i, acc, reqs). Suc maxPages - i)") auto

text \<open>
  \<open>fetchReposData\<close>: \<open>new_request\<close> is the error result of \<open>http.NewRequest\<close>
  (line 214).
\<close>

definition fetchReposData ::
  "(nat \<Rightarrow> bool) \<Rightarrow> error option \<Rightarrow> (nat \<Rightarrow> http_result) \<Rightarrow> fetch_out" where
  "fetchReposData ctx_done new_request srv =
     (case new_request of
        Some e \<Rightarrow>
          \<lparr>repos = None, err = Wrap (Some e) ''could not create new http request'',
           requested = []\<rparr>
      | None \<Rightarrow> fetch_loop ctx_done srv new_request 1 [] [])"

declare fetch_loop.simps [simp del]

text \<open>Example listings, used to run the Lister on concrete inputs.\<close>

definition repo0 :: MinimalRepository where
  "repo0 = \<lparr>Name = ''myrepo'', CloneUrl = ''https://host/org/myrepo.git''\<rparr>"

definition pages150 :: "nat \<Rightarrow> MinimalRepository list" where
  "pages150 j = (if j = 1 then replicate 100 repo0 else if j = 2 then replicate 50 repo0 else [])"

definition pages_full :: "nat \<Rightarrow> MinimalRepository list" where
  "pages_full j = replicate perPage repo0"

definition serve :: "(nat \<Rightarrow> MinimalRepository list) \<Rightarrow> nat \<Rightarrow> http_result" where
  "serve pages j = Response StatusOK (Inr (pages j))"

definition never :: "nat \<Rightarrow> bool" where
  "never i = False"

definition from_page :: "nat \<Rightarrow> nat \<Rightarrow> bool" where
  "from_page d i = (d \<le> i)"

section \<open>The Packager: fillZipWriter\<close>

subsection \<open>File modes, paths and the working directory\<close>

text \<open>
  \<open>os.FileMode\<close> is a 32-bit word; \<open>os.ModeDir\<close> is bit 31, \<open>os.ModeSymlink\<close>
  bit 27, \<open>os.ModePerm\<close> the nine permission bits.
\<close>

type_synonym FileMode = "32 word"

definition ModeDir :: FileMode where
  "ModeDir = push_bit 31 1"

definition ModeSymlink :: FileMode where
  "ModeSymlink = push_bit 27 1"

definition ModePerm :: FileMode where
  "ModePerm = 511"

text \<open>What \<open>entry.Info()\<close> gives: the base name and the mode of the entry itself.\<close>

record FileInfo =
  fi_Name :: string
  fi_Mode :: FileMode

text \<open>
  The tree under the working directory, as the walk meets it. An entry that is not a
  directory carries the results of the three calls the code can make on it:
  \<open>entry.Info()\<close>, \<open>os.Readlink(path)\<close>, and \<open>os.Open(path)\<close> followed by reading
  it to the end. A directory carries the error of reading it (nil when it can be read)
  and its entries in the order \<open>os.ReadDir\<close> lists them.
\<close>

datatype node =
    File "error + FileInfo" "error + string" "error + string"
  | Dir "error option" "(string \<times> node) list"

text \<open>
  Paths on a host whose separator is the slash. \<open>Join\<close> is \<open>filepath.Join\<close> of a
  clean path and a file name. \<open>Rel\<close> is \<open>filepath.Rel\<close> on the targets the walk
  produces from a clean root: the root itself and the paths below it; any other target
  is outside this model and answered with an error.
\<close>

definition Separator :: char where
  "Separator = CHR ''/''"

definition Join :: "string \<Rightarrow> string \<Rightarrow> string" where
  "Join dir file = dir @ [Separator] @ file"

definition Rel :: "string \<Rightarrow> string \<Rightarrow> error + string" where
  "Rel basepath targpath =
     (if targpath = basepath then Inr ''.''
      else if take (Suc (length basepath)) targpath = basepath @ [Separator]
      then Inr (drop (Suc (length basepath)) targpath)
      else Inl (Cause ''Rel: can't make target relative to base''))"

subsection \<open>The zip writer\<close>

datatype Method = Store | Deflate

text \<open>
  \<open>zip.FileHeader\<close>: its name, its method, and the mode \<open>SetMode\<close> recorded
  (what \<open>Mode()\<close> reads back).
\<close>

record FileHeader =
  fh_Name :: string
  fh_Method :: Method
  fh_Mode :: FileMode

record entry =
  header :: FileHeader
  payload :: string

text \<open>
  The \<open>zip.Writer\<close> over the output file: the entries created so far, each with the
  bytes written to it, and \<open>room\<close>, the number of further writes the underlying file
  accepts before it fails (which write of a run fails is the environment's choice).
\<close>

record Writer =
  entries :: "entry list"
  room :: nat

text \<open>
  \<open>zip.FileInfoHeader\<close>: name and mode are taken from the file, the method is Store;
  its error result is always nil.
\<close>

definition FileInfoHeader :: "FileInfo \<Rightarrow> FileHeader" where
  "FileInfoHeader fi = \<lparr>fh_Name = fi_Name fi, fh_Method = Store, fh_Mode = fi_Mode fi\<rparr>"

text \<open>
  \<open>w.CreateHeader\<close> refuses a name longer than 65535 bytes, writes the local header
  to the file, and starts a new entry.
\<close>

definition CreateHeader :: "FileHeader \<Rightarrow> Writer \<Rightarrow> Writer \<times> error option" where
  "CreateHeader fh w =
     (if 65535 < length (fh_Name fh) then (w, Some (Cause ''zip: FileHeader.Name too long''))
      else if room w = 0 then (w, Some (Cause ''write failed''))
      else (w\<lparr>entries := entries w @ [\<lparr>header = fh, payload = []\<rparr>], room := room w - 1\<rparr>,
            None))"

text \<open>
  Writing to the \<open>io.Writer\<close> that \<open>CreateHeader\<close> returned appends to the entry
  created last.
\<close>

definition Write :: "string \<Rightarrow> Writer \<Rightarrow> Writer \<times> error option" where
  "Write bytes w =
     (case rev (entries w) of
        [] \<Rightarrow> (w, Some (Cause ''no entry''))
      | e # earlier \<Rightarrow>
          (if room w = 0 then (w, Some (Cause ''write failed''))
           else (w\<lparr>entries := rev earlier @ [e\<lparr>payload := payload e @ bytes\<rparr>],
                   room := room w - 1\<rparr>, None)))"

subsection \<open>The walk\<close>

text \<open>
  The function literal of lines 89-148, called with the path, the entry and the error
  of the walk. A failed \<open>os.Open\<close> or a failed read of the file returns the error with
  the entry's header already written.
\<close>

definition walkFn ::
  "string \<Rightarrow> string \<Rightarrow> node \<Rightarrow> error option \<Rightarrow> Writer \<Rightarrow> Writer \<times> error option" where
  "walkFn dirFilename path entry walk_err w =
     (case walk_err of
        Some e \<Rightarrow> (w, Some e)
      | None \<Rightarrow>
          (case entry of
             Dir rd kids \<Rightarrow> (w, None)
           | File info readlink content \<Rightarrow>
               (case info of
                  Inl e \<Rightarrow> (w, Some e)
                | Inr file \<Rightarrow>
                    (if fi_Mode file AND ModeSymlink = ModeSymlink then
                       (case readlink of
                          Inl e \<Rightarrow> (w, Some e)
                        | Inr linkTarget \<Rightarrow>
                            (case CreateHeader
                                    \<lparr>fh_Name = path, fh_Method = Store, fh_Mode = ModeSymlink\<rparr> w of
                               (w1, Some e) \<Rightarrow> (w1, Some e)
                             | (w1, None) \<Rightarrow> Write linkTarget w1))
                     else
                       (case Rel dirFilename path of
                          Inl e \<Rightarrow> (w, Some e)
                        | Inr name \<Rightarrow>
                            (case CreateHeader ((FileInfoHeader file)\<lparr>fh_Name := name\<rparr>) w of
                               (w1, Some e) \<Rightarrow> (w1, Some e)
                             | (w1, None) \<Rightarrow>
                                 (case content of
                                    Inl e \<Rightarrow> (w1, Some e)
                                  | Inr bytes \<Rightarrow> Write bytes w1)))))))"

text \<open>
  \<open>filepath.WalkDir\<close> below the root: the function is called on the entry; a directory
  is then read (a read error is reported to the function by a second call) and its
  entries are walked in order, each under the joined path. The first error ends the walk.
\<close>

fun walkDir :: "string \<Rightarrow> string \<Rightarrow> node \<Rightarrow> Writer \<Rightarrow> Writer \<times> error option"
  and walkDirs ::
    "string \<Rightarrow> string \<Rightarrow> (string \<times> node) list \<Rightarrow> Writer \<Rightarrow> Writer \<times> error option" where
  "walkDir dirFilename path (File info readlink content) w =
     walkFn dirFilename path (File info readlink content) None w"
| "walkDir dirFilename path (Dir rd kids) w =
     (case walkFn dirFilename path (Dir rd kids) None w of
        (w1, Some e) \<Rightarrow> (w1, Some e)
      | (w1, None) \<Rightarrow>
          (case rd of
             None \<Rightarrow> walkDirs dirFilename path kids w1
           | Some e \<Rightarrow>
               (case walkFn dirFilename path (Dir rd kids) (Some e) w1 of
                  (w2, Some e2) \<Rightarrow> (w2, Some e2)
                | (w2, None) \<Rightarrow> walkDirs dirFilename path kids w2)))"
| "walkDirs dirFilename path [] w = (w, None)"
| "walkDirs dirFilename path ((name, d1) # rest) w =
     (case walkDir dirFilename (Join path name) d1 w of
        (w1, Some e) \<Rightarrow> (w1, Some e)
      | (w1, None) \<Rightarrow> walkDirs dirFilename path rest w1)"

text \<open>
  \<open>fillZipWriter\<close>: \<open>root\<close> is the result of \<open>os.Lstat\<close> on the working directory,
  whose error the walk hands to the function, which returns it (line 91).
\<close>

definition fillZipWriter :: "string \<Rightarrow> error + node \<Rightarrow> Writer \<Rightarrow> Writer \<times> error option" where
  "fillZipWriter dirFilename root w =
     (case root of
        Inl e \<Rightarrow> (w, Some e)
      | Inr d \<Rightarrow> walkDir dirFilename dirFilename d w)"

text \<open>
  The symlinks present under a node, each with its path and its link target: the
  entries whose own mode has the symlink bit.
\<close>

fun symlinks :: "string \<Rightarrow> node \<Rightarrow> (string \<times> string) list"
  and symlinks_in :: "string \<Rightarrow> (string \<times> node) list \<Rightarrow> (string \<times> string) list" where
  "symlinks path (File info readlink content) =
     (case info of
        Inl e \<Rightarrow> []
      | Inr file \<Rightarrow>
          (if fi_Mode file AND ModeSymlink = ModeSymlink then
             (case readlink of Inl e \<Rightarrow> [] | Inr linkTarget \<Rightarrow> [(path, linkTarget)])
           else []))"
| "symlinks path (Dir rd kids) = symlinks_in path kids"
| "symlinks_in path [] = []"
| "symlinks_in path ((name, d1) # rest) = symlinks (Join path name) d1 @ symlinks_in path rest"

text \<open>An example working directory: one clone with a regular file and a symlink to it.\<close>

definition regular :: "string \<Rightarrow> string \<Rightarrow> node" where
  "regular name bytes =
     File (Inr \<lparr>fi_Name = name, fi_Mode = 420\<rparr>) (Inl (Cause ''readlink: invalid argument''))
       (Inr bytes)"

definition symlink :: "string \<Rightarrow> string \<Rightarrow> node" where
  "symlink name target =
     File (Inr \<lparr>fi_Name = name, fi_Mode = ModeSymlink OR ModePerm\<rparr>) (Inr target)
       (Inl (Cause ''open: no such file or directory''))"

definition tree0 :: node where
  "tree0 =
     Dir None
       [(''myrepo'', Dir None
           [(''README'', regular ''README'' ''hello''),
            (''link'', symlink ''link'' ''README'')]),
        (''responses.json'', regular ''responses.json'' ''[]'')]"

definition writer0 :: Writer where
  "writer0 = \<lparr>entries = [], room = 100\<rparr>"

text \<open>The entry the code writes for a symlink met at \<open>path\<close>.\<close>

definition link_entry :: "string \<Rightarrow> string \<Rightarrow> entry" where
  "link_entry path linkTarget =
     \<lparr>header = \<lparr>fh_Name = path, fh_Method = Store, fh_Mode = ModeSymlink\<rparr>,
      payload = linkTarget\<rparr>"

section \<open>The clone worker pool and the join: cloneRepos, storeReposResponses, main\<close>

text \<open>
  The goroutines of lines 59-64 as a transition system. A worker is at the \<open>select\<close> of
  line 161, inside \<open>git.PlainCloneContext\<close> for a URL, or has returned (its deferred
  \<open>wg.Done()\<close> has run). The persister of \<open>storeReposResponses\<close> is running or has
  returned. The main goroutine is in the feeding loop of lines 188-192, blocked in
  \<open>wg.Wait()\<close> (line 64), past it (line 66 onwards), or the process has died of a panic
  in a goroutine.
\<close>

datatype worker = Waiting | Cloning string | Returned

datatype task = Running | Finished

datatype mainpc = Feeding | AtWait | Packaging | Panicked

record state =
  pending :: "string list"
  pc :: mainpc
  workers :: "worker list"
  persister :: task
  wg :: nat
  fired :: bool
  attempts :: "string list"
  failures :: "string list"

text \<open>
  \<open>pending\<close> are the clone URLs the feeding loop has still to send, \<open>wg\<close> is the
  counter of the WaitGroup, \<open>fired\<close> says whether the shared deadline has fired,
  \<open>attempts\<close> lists the URLs handed to \<open>git.PlainCloneContext\<close> in the order they
  were received, and \<open>failures\<close> the URLs printed by line 181.

  The state when line 188 is reached: \<open>storeReposResponses\<close> has added one to the
  WaitGroup and started the persister, \<open>cloneRepos\<close> has added one per worker and
  started \<open>n\<close> workers (the code has \<open>n = cloningWorkers\<close>).
\<close>

definition init :: "nat \<Rightarrow> string list \<Rightarrow> state" where
  "init n urls =
     \<lparr>pending = urls, pc = Feeding, workers = replicate n Waiting, persister = Running,
      wg = Suc n, fired = False, attempts = [], failures = []\<rparr>"

definition cloneRepos_start :: "MinimalRepository list \<Rightarrow> state" where
  "cloneRepos_start reposData = init cloningWorkers (map CloneUrl reposData)"

text \<open>
  What can happen next. \<open>Deadline\<close>: the timer of \<open>context.WithTimeout\<close> fires.
  \<open>Receive i\<close>: the send of line 189 meets worker \<open>i\<close> at its \<open>select\<close>, which
  starts the clone. \<open>CloneReturns i r\<close>: the clone of worker \<open>i\<close> returns the error
  \<open>r\<close>. \<open>ContextDone i\<close>: worker \<open>i\<close> takes the case of line 162 and returns.
  \<open>WorkDone i\<close>: worker \<open>i\<close> receives from the closed channel and returns.
  \<open>CloseWork\<close>: the feeding loop is over, line 192 closes the channel and main goes on
  to \<open>wg.Wait()\<close>. \<open>PersistOk\<close> and \<open>PersistPanic\<close>: the persister returns, or
  panics on line 202 or 206. \<open>WaitReturns\<close>: \<open>wg.Wait()\<close> returns.
\<close>

datatype event =
    Deadline
  | Receive nat
  | CloneReturns nat "error option"
  | ContextDone nat
  | WorkDone nat
  | CloseWork
  | PersistOk
  | PersistPanic
  | WaitReturns

text \<open>\<open>wg.Done()\<close>: a counter that would go negative panics.\<close>

definition Done :: "state \<Rightarrow> state" where
  "Done s = (if wg s = 0 then s\<lparr>pc := Panicked\<rparr> else s\<lparr>wg := wg s - 1\<rparr>)"

fun step :: "event \<Rightarrow> state \<Rightarrow> state option" where
  "step Deadline s =
     (if pc s \<noteq> Panicked \<and> \<not> fired s then Some (s\<lparr>fired := True\<rparr>) else None)"
| "step (Receive i) s =
     (if pc s = Feeding \<and> i < length (workers s) \<and> workers s ! i = Waiting then
        (case pending s of
           [] \<Rightarrow> None
         | u # rest \<Rightarrow>
             Some (s\<lparr>pending := rest, workers := (workers s)[i := Cloning u],
                     attempts := attempts s @ [u]\<rparr>))
      else None)"
| "step (CloneReturns i r) s =
     (if pc s \<noteq> Panicked \<and> i < length (workers s) then
        (case workers s ! i of
           Cloning u \<Rightarrow>
             Some (s\<lparr>workers := (workers s)[i := Waiting],
                     failures := (case r of None \<Rightarrow> failures s | Some e \<Rightarrow> failures s @ [u])\<rparr>)
         | _ \<Rightarrow> None)
      else None)"
| "step (ContextDone i) s =
     (if pc s \<noteq> Panicked \<and> i < length (workers s) \<and> workers s ! i = Waiting \<and> fired s
      then Some (Done (s\<lparr>workers := (workers s)[i := Returned]\<rparr>))
      else None)"
| "step (WorkDone i) s =
     (if (pc s = AtWait \<or> pc s = Packaging) \<and> i < length (workers s) \<and>
         workers s ! i = Waiting
      then Some (Done (s\<lparr>workers := (workers s)[i := Returned]\<rparr>))
      else None)"
| "step CloseWork s =
     (if pc s = Feeding \<and> pending s = [] then Some (s\<lparr>pc := AtWait\<rparr>) else None)"
| "step PersistOk s =
     (if pc s \<noteq> Panicked \<and> persister s = Running
      then Some (Done (s\<lparr>persister := Finished\<rparr>))
      else None)"
| "step PersistPanic s =
     (if pc s \<noteq> Panicked \<and> persister s = Running then Some (s\<lparr>pc := Panicked\<rparr>)
      else None)"
| "step WaitReturns s =
     (if pc s = AtWait \<and> wg s = 0 then Some (s\<lparr>pc := Packaging\<rparr>) else None)"

text \<open>A run: the events in the order they happen; \<open>None\<close> when one of them cannot.\<close>

fun exec :: "event list \<Rightarrow> state \<Rightarrow> state option" where
  "exec [] s = Some s"
| "exec (e # es) s = (case step e s of None \<Rightarrow> None | Some s' \<Rightarrow> exec es s')"

text \<open>
  The events that can happen in a state, one representative for each kind and worker
  (a clone that can return can return any error). When the list is empty nothing can
  happen any more: every goroutine has returned or is blocked for good.
\<close>

definition candidates :: "nat \<Rightarrow> event list" where
  "candidates n =
     [Deadline, CloseWork, PersistOk, PersistPanic, WaitReturns] @
     concat (map (\<lambda>i. [Receive i, CloneReturns i None, ContextDone i, WorkDone i]) [0..<n])"

definition can :: "state \<Rightarrow> event \<Rightarrow> bool" where
  "can s e = (step e s \<noteq> None)"

definition enabled :: "state \<Rightarrow> event list" where
  "enabled s = filter (can s) (candidates (length (workers s)))"

text \<open>
  The run of the scenario "the deadline fires after 3 of 10 dispatched clones have
  started": three URLs are received, the deadline fires, the three clones return the
  context's error, every worker takes the \<open>ctx.Done()\<close> case, the persister finishes.
\<close>

definition urls10 :: "string list" where
  "urls10 = map (\<lambda>k. ''https://host/org/r'' @ [char_of (48 + k)] @ ''.git'') [0..<10]"

definition cancelled :: "error option" where
  "cancelled = Some (Cause ''context deadline exceeded'')"

definition deadline_run :: "event list" where
  "deadline_run =
     [Receive 0, Receive 1, Receive 2, Deadline,
      CloneReturns 0 cancelled, CloneReturns 1 cancelled, CloneReturns 2 cancelled,
      ContextDone 0, ContextDone 1, ContextDone 2, ContextDone 3, ContextDone 4,
      PersistOk]"

text \<open>
  A run seen without its failure log, and an event with its clone made to succeed.
\<close>

definition forget :: "state \<Rightarrow> state" where
  "forget s = s\<lparr>failures := []\<rparr>"

fun succeed :: "event \<Rightarrow> event" where
  "succeed (CloneReturns i r) = CloneReturns i None"
| "succeed Deadline = Deadline"
| "succeed (Receive i) = Receive i"
| "succeed (ContextDone i) = ContextDone i"
| "succeed (WorkDone i) = WorkDone i"
| "succeed CloseWork = CloseWork"
| "succeed PersistOk = PersistOk"
| "succeed PersistPanic = PersistPanic"
| "succeed WaitReturns = WaitReturns"

text \<open>The workers that have not returned, and the goroutines the WaitGroup waits for.\<close>

definition live :: "worker list \<Rightarrow> nat" where
  "live ws = length (filter (\<lambda>w. w \<noteq> Returned) ws)"

definition outstanding :: "state \<Rightarrow> nat" where
  "outstanding s = live (workers s) + (if persister s = Running then 1 else 0)"

(*DEFS_END*)
section \<open>Properties of the Lister\<close>

lemma fetch_loop_pages:
  assumes "\<forall>j. i \<le> j \<and> j \<le> maxPages \<longrightarrow>
             srv j = Response StatusOK (Inr (pages j)) \<and> \<not> ctx_done j"
    and "i \<le> Suc maxPages"
  shows "\<exists>k. k \<le> maxPages \<and> i \<le> Suc k \<and>
           fetch_loop ctx_done srv e i acc reqs =
             \<lparr>repos = Some (acc @ concat (map pages [i..<Suc k])), err = None,
              requested = reqs @ [i..<Suc k]\<rparr> \<and>
           (\<forall>j. i \<le> j \<and> j < k \<longrightarrow> \<not> length (pages j) < perPage) \<and>
           (k < maxPages \<longrightarrow> i \<le> k \<and> length (pages k) < perPage)"
  using assms
proof (induction ctx_done srv e i acc reqs rule: fetch_loop.induct)
  case (1 ctx_done srv outer_err i acc reqs)
  show ?case
  proof (cases "i \<le> maxPages")
    case False
    with "1.prems" have i: "i = Suc maxPages" by simp
    have "fetch_loop ctx_done srv outer_err i acc reqs =
            \<lparr>repos = Some acc, err = None, requested = reqs\<rparr>"
      using False by (simp add: fetch_loop.simps)
    then show ?thesis using i by (intro exI[of _ maxPages]) simp
  next
    case True
    with "1.prems" have here: "srv i = Response StatusOK (Inr (pages i))" "\<not> ctx_done i"
      by auto
    show ?thesis
    proof (cases "length (pages i) < perPage")
      case short: True
      have "fetch_loop ctx_done srv outer_err i acc reqs =
              \<lparr>repos = Some (acc @ pages i), err = None, requested = reqs @ [i]\<rparr>"
        using True here short by (simp add: fetch_loop.simps)
      then show ?thesis using True short by (intro exI[of _ i]) simp
    next
      case full: False
      have step: "fetch_loop ctx_done srv outer_err i acc reqs =
              fetch_loop ctx_done srv outer_err (Suc i) (acc @ pages i) (reqs @ [i])"
        using True here full by (subst fetch_loop.simps) simp
      have "\<exists>k. k \<le> maxPages \<and> Suc i \<le> Suc k \<and>
           fetch_loop ctx_done srv outer_err (Suc i) (acc @ pages i) (reqs @ [i]) =
             \<lparr>repos = Some ((acc @ pages i) @ concat (map pages [Suc i..<Suc k])), err = None,
              requested = (reqs @ [i]) @ [Suc i..<Suc k]\<rparr> \<and>
           (\<forall>j. Suc i \<le> j \<and> j < k \<longrightarrow> \<not> length (pages j) < perPage) \<and>
           (k < maxPages \<longrightarrow> Suc i \<le> k \<and> length (pages k) < perPage)"
        using "1.IH"[OF True here(2) here(1) _ _ full] "1.prems" True by simp
      then obtain k where k: "k \<le> maxPages" "i \<le> k"
        "fetch_loop ctx_done srv outer_err (Suc i) (acc @ pages i) (reqs @ [i]) =
             \<lparr>repos = Some ((acc @ pages i) @ concat (map pages [Suc i..<Suc k])), err = None,
              requested = (reqs @ [i]) @ [Suc i..<Suc k]\<rparr>"
        "\<forall>j. Suc i \<le> j \<and> j < k \<longrightarrow> \<not> length (pages j) < perPage"
        "k < maxPages \<longrightarrow> Suc i \<le> k \<and> length (pages k) < perPage"
        by auto
      have up: "[i..<Suc k] = i # [Suc i..<Suc k]"
        using k(2) by (simp add: upt_conv_Cons)
      have full': "\<forall>j. i \<le> j \<and> j < k \<longrightarrow> \<not> length (pages j) < perPage"
      proof (intro allI impI)
        fix j assume j: "i \<le> j \<and> j < k"
        show "\<not> length (pages j) < perPage"
        proof (cases "j = i")
          case True then show ?thesis using full by simp
        next
          case False then show ?thesis using j k(4) by auto
        qed
      qed
      have "fetch_loop ctx_done srv outer_err i acc reqs =
             \<lparr>repos = Some (acc @ concat (map pages [i..<Suc k])), err = None,
              requested = reqs @ [i..<Suc k]\<rparr>"
        unfolding step k(3) up by (simp del: upt_Suc)
      then show ?thesis
        using k(1,2,5) full' by (intro exI[of _ k]) (simp del: upt_Suc)
    qed
  qed
qed


lemma fetch_loop_deadline:
  assumes "\<forall>j. i \<le> j \<and> j < d \<longrightarrow>
             srv j = Response StatusOK (Inr (pages j)) \<and> \<not> length (pages j) < perPage \<and>
             \<not> ctx_done j"
    and "ctx_done d" and "i \<le> d" and "d \<le> maxPages"
  shows "fetch_loop ctx_done srv e i acc reqs =
           \<lparr>repos = None, err = Wrap e ''context finished'', requested = reqs @ [i..<d]\<rparr>"
  using assms
proof (induction ctx_done srv e i acc reqs rule: fetch_loop.induct)
  case (1 ctx_done srv outer_err i acc reqs)
  have le: "i \<le> maxPages" using "1.prems" by simp
  show ?case
  proof (cases "i = d")
    case True
    then show ?thesis using "1.prems"(2) le by (simp add: fetch_loop.simps)
  next
    case False
    then have lt: "i < d" using "1.prems"(3) by simp
    with "1.prems"(1) have here: "srv i = Response StatusOK (Inr (pages i))"
      "\<not> length (pages i) < perPage" "\<not> ctx_done i"
      by auto
    have step: "fetch_loop ctx_done srv outer_err i acc reqs =
              fetch_loop ctx_done srv outer_err (Suc i) (acc @ pages i) (reqs @ [i])"
      using le here by (subst fetch_loop.simps) simp
    have "fetch_loop ctx_done srv outer_err (Suc i) (acc @ pages i) (reqs @ [i]) =
            \<lparr>repos = None, err = Wrap outer_err ''context finished'',
             requested = (reqs @ [i]) @ [Suc i..<d]\<rparr>"
      using "1.IH"[OF le here(3) here(1) _ _ here(2)] "1.prems" lt by simp
    then show ?thesis
      unfolding step using lt by (simp add: upt_conv_Cons)
  qed
qed

text \<open>
  C2. The claim: when the shared deadline has fired before a page request starts,
  \<open>fetchReposData\<close> returns a non-nil context/deadline error. In the code the error
  wrapped on line 228 is the \<open>err\<close> of line 214, which is nil there, and
  \<open>errors.Wrap\<close> of nil is nil: whenever the deadline is seen at the \<open>select\<close> of
  page \<open>d\<close> (after \<open>d - 1\<close> full pages), both results are nil.
\<close>

theorem fetchReposData_deadline_returns_nil_error:
  assumes "\<forall>j. 1 \<le> j \<and> j < d \<longrightarrow>
             srv j = Response StatusOK (Inr (pages j)) \<and> \<not> length (pages j) < perPage \<and>
             \<not> ctx_done j"
    and "ctx_done d" and "1 \<le> d" and "d \<le> maxPages"
  shows "fetchReposData ctx_done None srv =
           \<lparr>repos = None, err = None, requested = [1..<d]\<rparr>"
  using fetch_loop_deadline[OF assms, of None "[]" "[]"]
  by (simp add: fetchReposData_def)

theorem fetchReposData_deadline_returns_nil_error_witness:
  "from_page 1 1 \<and>
   fetchReposData (from_page 1) None (serve pages150) =
     \<lparr>repos = None, err = None, requested = []\<rparr>"
  using fetchReposData_deadline_returns_nil_error[of 1 "serve pages150" pages150 "from_page 1"]
  by (simp add: from_page_def maxPages_def)

text \<open>
  C6. For every sequence of page responses \<open>pages\<close> (served with status OK while the
  deadline has not fired), the Lister requests the pages \<open>1, ..., k\<close> for some
  \<open>k \<le> maxPages\<close>, every page before the last requested one is full, the last one is
  short unless \<open>k = maxPages\<close>, and the result is the concatenation of the pages
  requested, with a nil error.
\<close>

theorem fetchReposData_pagination:
  assumes "\<forall>j. 1 \<le> j \<and> j \<le> maxPages \<longrightarrow>
             srv j = Response StatusOK (Inr (pages j)) \<and> \<not> ctx_done j"
  shows "\<exists>k. 1 \<le> k \<and> k \<le> maxPages \<and>
           fetchReposData ctx_done None srv =
             \<lparr>repos = Some (concat (map pages [1..<Suc k])), err = None,
              requested = [1..<Suc k]\<rparr> \<and>
           (\<forall>j. 1 \<le> j \<and> j < k \<longrightarrow> \<not> length (pages j) < perPage) \<and>
           (k < maxPages \<longrightarrow> length (pages k) < perPage)"
proof -
  obtain k where k: "k \<le> maxPages"
    "fetch_loop ctx_done srv None 1 [] [] =
       \<lparr>repos = Some ([] @ concat (map pages [1..<Suc k])), err = None,
        requested = [] @ [1..<Suc k]\<rparr>"
    "\<forall>j. 1 \<le> j \<and> j < k \<longrightarrow> \<not> length (pages j) < perPage"
    "k < maxPages \<longrightarrow> 1 \<le> k \<and> length (pages k) < perPage"
    using fetch_loop_pages[OF assms, of None "[]" "[]"] by auto
  have "1 \<le> k" using k(1,4) by (cases "k < maxPages") (simp_all add: maxPages_def)
  then show ?thesis
    using k by (intro exI[of _ k]) (simp add: fetchReposData_def del: upt_Suc)
qed

theorem fetchReposData_pagination_witness:
  "requested (fetchReposData never None (serve pages150)) = [1, 2] \<and>
   map_option length (repos (fetchReposData never None (serve pages150))) = Some 150 \<and>
   err (fetchReposData never None (serve pages150)) = None"
proof -
  have hyp: "\<forall>j. 1 \<le> j \<and> j \<le> maxPages \<longrightarrow>
      serve pages150 j = Response StatusOK (Inr (pages150 j)) \<and> \<not> never j"
    by (simp add: serve_def never_def)
  obtain k where k: "1 \<le> k" "k \<le> maxPages"
    "fetchReposData never None (serve pages150) =
       \<lparr>repos = Some (concat (map pages150 [1..<Suc k])), err = None,
        requested = [1..<Suc k]\<rparr>"
    "\<forall>j. 1 \<le> j \<and> j < k \<longrightarrow> \<not> length (pages150 j) < perPage"
    "k < maxPages \<longrightarrow> length (pages150 k) < perPage"
    using fetchReposData_pagination[OF hyp] by auto
  have "k \<noteq> 1" using k(5) by (auto simp: pages150_def perPage_def maxPages_def)
  moreover have "\<not> 2 < k"
  proof
    assume "2 < k"
    then have "\<not> length (pages150 2) < perPage" using k(4) by simp
    then show False by (simp add: pages150_def perPage_def)
  qed
  ultimately have "k = 2" using k(1) by arith
  then have "[1..<Suc k] = [1, 2]" by (simp add: upt_conv_Cons)
  then show ?thesis unfolding k(3) by (simp add: pages150_def)
qed

text \<open>
  C10. When each of the \<open>maxPages\<close> pages is full, the Lister returns exactly
  \<open>maxPages * perPage\<close> descriptors and a nil error. Page \<open>maxPages + 1\<close> is never
  consulted: whatever the server would answer there, the result is the same, so a
  truncated listing cannot be told from a complete one.
\<close>

theorem fetchReposData_truncates_silently:
  assumes "\<forall>j. 1 \<le> j \<and> j \<le> maxPages \<longrightarrow>
             srv j = Response StatusOK (Inr (pages j)) \<and> length (pages j) = perPage \<and>
             \<not> ctx_done j"
  shows "fetchReposData ctx_done None srv =
           \<lparr>repos = Some (concat (map pages [1..<Suc maxPages])), err = None,
            requested = [1..<Suc maxPages]\<rparr> \<and>
         length (concat (map pages [1..<Suc maxPages])) = maxPages * perPage \<and>
         fetchReposData ctx_done None (srv(Suc maxPages := beyond)) =
           fetchReposData ctx_done None srv"
proof -
  have res: "fetchReposData ctx_done None s =
           \<lparr>repos = Some (concat (map pages [1..<Suc maxPages])), err = None,
            requested = [1..<Suc maxPages]\<rparr>"
    if s: "\<forall>j. 1 \<le> j \<and> j \<le> maxPages \<longrightarrow>
             s j = Response StatusOK (Inr (pages j)) \<and> length (pages j) = perPage \<and>
             \<not> ctx_done j" for s
  proof -
    have s': "\<forall>j. 1 \<le> j \<and> j \<le> maxPages \<longrightarrow>
             s j = Response StatusOK (Inr (pages j)) \<and> \<not> ctx_done j"
      using s by blast
    obtain k where k: "1 \<le> k" "k \<le> maxPages"
      "fetchReposData ctx_done None s =
         \<lparr>repos = Some (concat (map pages [1..<Suc k])), err = None,
          requested = [1..<Suc k]\<rparr>"
      "k < maxPages \<longrightarrow> length (pages k) < perPage"
      using fetchReposData_pagination[OF s'] by auto
    have "\<not> k < maxPages"
    proof
      assume lt: "k < maxPages"
      then have "length (pages k) = perPage" using s k(1) by simp
      then show False using k(4) lt by simp
    qed
    then have "k = maxPages" using k(2) by simp
    then show ?thesis using k(3) by simp
  qed
  have len: "length (concat (map pages [1..<Suc maxPages])) = maxPages * perPage"
  proof -
    have eq: "map (length \<circ> pages) [1..<Suc maxPages] = map (\<lambda>_. perPage) [1..<Suc maxPages]"
      using assms by (intro map_cong) auto
    have "length (concat (map pages [1..<Suc maxPages])) =
            sum_list (map (length \<circ> pages) [1..<Suc maxPages])"
      by (simp add: length_concat del: upt_Suc)
    also have "\<dots> = sum_list (map (\<lambda>_. perPage) [1..<Suc maxPages])"
      by (simp only: eq)
    also have "\<dots> = maxPages * perPage"
      by (simp add: sum_list_triv del: upt_Suc)
    finally show ?thesis .
  qed
  have "\<forall>j. 1 \<le> j \<and> j \<le> maxPages \<longrightarrow>
          (srv(Suc maxPages := beyond)) j = Response StatusOK (Inr (pages j)) \<and>
          length (pages j) = perPage \<and> \<not> ctx_done j"
    using assms by simp
  from res[OF this] res[OF assms] len show ?thesis by (simp only: simp_thms)
qed

theorem fetchReposData_truncates_silently_witness:
  "map_option length (repos (fetchReposData never None (serve pages_full))) = Some 1000 \<and>
   err (fetchReposData never None (serve pages_full)) = None \<and>
   length (requested (fetchReposData never None (serve pages_full))) = 10 \<and>
   fetchReposData never None ((serve pages_full)(11 := TransportError (Cause ''down''))) =
     fetchReposData never None (serve pages_full)"
proof -
  have hyp: "\<forall>j. 1 \<le> j \<and> j \<le> maxPages \<longrightarrow>
      serve pages_full j = Response StatusOK (Inr (pages_full j)) \<and>
      length (pages_full j) = perPage \<and> \<not> never j"
    by (simp add: serve_def never_def pages_full_def)
  have eleven: "Suc maxPages = 11" by (simp add: maxPages_def)
  show ?thesis
    using fetchReposData_truncates_silently[OF hyp, of "TransportError (Cause ''down'')"]
    unfolding eleven by (simp add: maxPages_def perPage_def)
qed

section \<open>Properties of the Packager\<close>

lemma CreateHeader_ok:
  "CreateHeader fh w = (w1, None) \<Longrightarrow> entries w1 = entries w @ [\<lparr>header = fh, payload = []\<rparr>]"
  by (auto simp: CreateHeader_def split: if_splits)

lemma Write_ok:
  "Write bytes w = (w2, None) \<Longrightarrow> entries w = es @ [e] \<Longrightarrow>
   entries w2 = es @ [e\<lparr>payload := payload e @ bytes\<rparr>]"
  by (auto simp: Write_def split: if_splits list.splits)

lemma walkFn_symlink:
  assumes "walkFn dirFilename path (File (Inr file) (Inr linkTarget) content) None w = (w', None)"
    and "fi_Mode file AND ModeSymlink = ModeSymlink"
  shows "entries w' = entries w @
           [\<lparr>header = \<lparr>fh_Name = path, fh_Method = Store, fh_Mode = ModeSymlink\<rparr>,
             payload = linkTarget\<rparr>]"
  using assms
  by (auto simp: walkFn_def split: prod.splits option.splits dest!: CreateHeader_ok dest: Write_ok)

lemma walkFn_grows:
  assumes "walkFn dirFilename path d walk_err w = (w', None)"
  shows "\<exists>new. entries w' = entries w @ new"
  using assms
  by (fastforce simp: walkFn_def split: prod.splits option.splits node.splits sum.splits if_splits dest!: CreateHeader_ok dest: Write_ok[where es="entries w"])

lemma walk_grows:
  "walkDir dirFilename path d w = (w', None) \<Longrightarrow> \<exists>new. entries w' = entries w @ new"
  "walkDirs dirFilename path ds w = (w', None) \<Longrightarrow> \<exists>new. entries w' = entries w @ new"
proof (induction dirFilename path d w and dirFilename path ds w arbitrary: w' and w' rule: walkDir_walkDirs.induct)
  case (1 dirFilename path info readlink content w)
  then show ?case using walkFn_grows by simp
next
  case (2 dirFilename path rd kids w)
  then show ?case
    by (auto simp: walkFn_def split: option.splits)
next
  case (3 dirFilename path w)
  then show ?case by simp
next
  case (4 dirFilename path name d1 rest w)
  from "4.prems" obtain w1 where w1: "walkDir dirFilename (Join path name) d1 w = (w1, None)"
    "walkDirs dirFilename path rest w1 = (w', None)"
    by (auto split: prod.splits option.splits)
  from "4.IH"(1)[OF w1(1)] "4.IH"(2)[OF w1(1)[symmetric] refl w1(2)] show ?case by auto
qed


lemma symlinks_File:
  "(p, t) \<in> set (symlinks path (File info readlink content)) \<Longrightarrow>
   \<exists>fi. info = Inr fi \<and> readlink = Inr t \<and> p = path \<and> fi_Mode fi AND ModeSymlink = ModeSymlink"
  by (cases info; cases readlink) (simp_all cong: if_cong)

lemma walk_symlinks:
  "walkDir dirFilename path d w = (w', None) \<Longrightarrow> (p, t) \<in> set (symlinks path d) \<Longrightarrow>
     link_entry p t \<in> set (entries w')"
  "walkDirs dirFilename path ds w = (w', None) \<Longrightarrow> (p, t) \<in> set (symlinks_in path ds) \<Longrightarrow>
     link_entry p t \<in> set (entries w')"
proof (induction dirFilename path d w and dirFilename path ds w arbitrary: w' and w'
    rule: walkDir_walkDirs.induct)
  case (1 dirFilename path info readlink content w)
  from "1.prems"(2) obtain fi where f: "info = Inr fi" "readlink = Inr t" "p = path"
    "fi_Mode fi AND ModeSymlink = ModeSymlink"
    using symlinks_File by blast
  from "1.prems"(1) have "walkFn dirFilename path (File (Inr fi) (Inr t) content) None w = (w', None)"
    using f by simp
  from walkFn_symlink[OF this f(4)] show ?case using f(3) by (simp add: link_entry_def)
next
  case (2 dirFilename path rd kids w)
  from "2.prems"(1) have rd: "rd = None" and ks: "walkDirs dirFilename path kids w = (w', None)"
    by (auto simp: walkFn_def split: option.splits)
  have "(w, None) = walkFn dirFilename path (Dir rd kids) None w"
    by (simp add: walkFn_def)
  from "2.IH"(1)[OF this refl rd ks] "2.prems"(2) show ?case by simp
next
  case (3 dirFilename path w)
  then show ?case by simp
next
  case (4 dirFilename path name d1 rest w)
  from "4.prems"(1) obtain w1 where w1: "walkDir dirFilename (Join path name) d1 w = (w1, None)"
    "walkDirs dirFilename path rest w1 = (w', None)"
    by (auto split: prod.splits option.splits)
  from "4.prems"(2) consider "(p, t) \<in> set (symlinks (Join path name) d1)"
    | "(p, t) \<in> set (symlinks_in path rest)"
    by auto
  then show ?case
  proof cases
    case 1
    from "4.IH"(1)[OF w1(1) 1] have "link_entry p t \<in> set (entries w1)" .
    moreover from walk_grows(2)[OF w1(2)] obtain new where "entries w' = entries w1 @ new" ..
    ultimately show ?thesis by simp
  next
    case 2
    from "4.IH"(2)[OF w1(1)[symmetric] refl w1(2) 2] show ?thesis .
  qed
qed

lemma tree0_run:
  "fillZipWriter ''acme-archive-2024'' (Inr tree0) writer0 =
     (\<lparr>entries =
        [\<lparr>header = \<lparr>fh_Name = ''myrepo/README'', fh_Method = Store, fh_Mode = 420\<rparr>,
          payload = ''hello''\<rparr>,
         \<lparr>header = \<lparr>fh_Name = ''acme-archive-2024/myrepo/link'', fh_Method = Store,
                     fh_Mode = ModeSymlink\<rparr>,
          payload = ''README''\<rparr>,
         \<lparr>header = \<lparr>fh_Name = ''responses.json'', fh_Method = Store, fh_Mode = 420\<rparr>,
          payload = ''[]''\<rparr>],
       room = 94\<rparr>, None)"
  by (simp add: fillZipWriter_def tree0_def regular_def symlink_def writer0_def walkFn_def
      CreateHeader_def Write_def Rel_def Join_def Separator_def FileInfoHeader_def
      ModeSymlink_def ModePerm_def)

lemma tree0_links: "symlinks ''acme-archive-2024'' tree0 = [(''acme-archive-2024/myrepo/link'', ''README'')]"
  by (simp add: tree0_def regular_def symlink_def Join_def Separator_def ModeSymlink_def ModePerm_def)


text \<open>
  C9. Whenever packaging succeeds, every symlink present under the working directory
  (an entry whose own mode has the symlink bit, with link target \<open>linkTarget\<close>) has an
  entry in the archive, created for its path, whose mode is the symlink mode and whose
  payload is the link-target string. The link is never opened: the payload comes from
  \<open>os.Readlink\<close> alone.
\<close>

theorem fillZipWriter_symlinks:
  assumes "fillZipWriter dirFilename (Inr d) w = (w', None)"
    and "(path, linkTarget) \<in> set (symlinks dirFilename d)"
  shows "\<exists>e. e \<in> set (entries w') \<and> fh_Name (header e) = path \<and>
           fh_Mode (header e) = ModeSymlink \<and> payload e = linkTarget"
proof -
  from assms(1) have "walkDir dirFilename dirFilename d w = (w', None)"
    by (simp add: fillZipWriter_def)
  from walk_symlinks(1)[OF this assms(2)] show ?thesis
    by (intro exI[of _ "link_entry path linkTarget"]) (simp add: link_entry_def)
qed


theorem fillZipWriter_symlinks_witness:
  "snd (fillZipWriter ''acme-archive-2024'' (Inr tree0) writer0) = None \<and>
   (''acme-archive-2024/myrepo/link'', ''README'') \<in> set (symlinks ''acme-archive-2024'' tree0) \<and>
   (\<exists>e. e \<in> set (entries (fst (fillZipWriter ''acme-archive-2024'' (Inr tree0) writer0))) \<and>
        fh_Name (header e) = ''acme-archive-2024/myrepo/link'' \<and>
        fh_Mode (header e) = ModeSymlink \<and> payload e = ''README'')"
proof -
  have links: "(''acme-archive-2024/myrepo/link'', ''README'') \<in>
      set (symlinks ''acme-archive-2024'' tree0)"
    by (simp add: tree0_links)
  from fillZipWriter_symlinks[OF tree0_run links] links show ?thesis
    by (simp add: tree0_run)
qed

text \<open>
  C3. The claim: every entry, regular file or symlink alike, is named by its path
  relative to the working directory. On the example tree the regular files are
  (\<open>filepath.Rel\<close>, line 130), but the symlink's header is built with
  \<open>Name: path\<close> (line 109), the walk's path, which starts with the working directory.
\<close>

theorem fillZipWriter_symlink_name_keeps_prefix:
  "map (\<lambda>e. fh_Name (header e))
     (entries (fst (fillZipWriter ''acme-archive-2024'' (Inr tree0) writer0))) =
     [''myrepo/README'', ''acme-archive-2024/myrepo/link'', ''responses.json''] \<and>
   snd (fillZipWriter ''acme-archive-2024'' (Inr tree0) writer0) = None \<and>
   Rel ''acme-archive-2024'' ''acme-archive-2024/myrepo/link'' = Inr ''myrepo/link''"
  by (simp add: tree0_run Rel_def Separator_def)

end
